theory Spec2Isabelle
  imports Main
begin

section \<open>The UDML data model (backend/udml/translator.py)\<close>

text \<open>
  The unified opcodes of \<^verbatim>\<open>class UDMLOpcode(Enum)\<close>, in the order of the source.
  The enum members \<^verbatim>\<open>AND\<close>, \<^verbatim>\<open>OR\<close>, \<^verbatim>\<open>XOR\<close>, \<^verbatim>\<open>NOT\<close>, \<^verbatim>\<open>DIV\<close>, \<^verbatim>\<open>MOD\<close> and \<^verbatim>\<open>SET\<close> carry
  the prefix \<open>Op\<close> here, the names without it being taken by notation of the logic; the
  member's value (the string of \<open>opcode_value\<close>) is the one of the source.
\<close>

datatype UDMLOpcode =
    LOAD | STORE | MOVE
  | OpAND | OpOR | OpXOR | OpNOT
  | EQ | NE | GT | LT | GE | LE
  | ADD | SUB | MUL | OpDIV | OpMOD
  | TON | TOF | TP | CTU | CTD | CTUD
  | CALL | RET | JMP | JZ | JNZ
  | NOP | OpSET | RESET

fun opcode_value :: "UDMLOpcode \<Rightarrow> string" where
  "opcode_value LOAD = ''LOAD''"
| "opcode_value STORE = ''STORE''"
| "opcode_value MOVE = ''MOVE''"
| "opcode_value OpAND = ''AND''"
| "opcode_value OpOR = ''OR''"
| "opcode_value OpXOR = ''XOR''"
| "opcode_value OpNOT = ''NOT''"
| "opcode_value EQ = ''EQ''"
| "opcode_value NE = ''NE''"
| "opcode_value GT = ''GT''"
| "opcode_value LT = ''LT''"
| "opcode_value GE = ''GE''"
| "opcode_value LE = ''LE''"
| "opcode_value ADD = ''ADD''"
| "opcode_value SUB = ''SUB''"
| "opcode_value MUL = ''MUL''"
| "opcode_value OpDIV = ''DIV''"
| "opcode_value OpMOD = ''MOD''"
| "opcode_value TON = ''TON''"
| "opcode_value TOF = ''TOF''"
| "opcode_value TP = ''TP''"
| "opcode_value CTU = ''CTU''"
| "opcode_value CTD = ''CTD''"
| "opcode_value CTUD = ''CTUD''"
| "opcode_value CALL = ''CALL''"
| "opcode_value RET = ''RET''"
| "opcode_value JMP = ''JMP''"
| "opcode_value JZ = ''JZ''"
| "opcode_value JNZ = ''JNZ''"
| "opcode_value NOP = ''NOP''"
| "opcode_value OpSET = ''SET''"
| "opcode_value RESET = ''RESET''"

text \<open>
  The values of the \<^verbatim>\<open>Dict[str, Any]\<close> fields. The translator and the optimizer store
  only \<^verbatim>\<open>True\<close> and string literals there; what a caller has put into a Program is any
  of these.
\<close>

datatype pyval = PNone | PBool bool | PInt int | PStr string | PList "pyval list"

type_synonym pydict = "string \<rightharpoonup> pyval"

text \<open>\<^verbatim>\<open>@dataclass class UDMLInstruction\<close>; \<^verbatim>\<open>comment: Optional[str] = None\<close>.\<close>

record UDMLInstruction =
  opcode :: UDMLOpcode
  operands :: "string list"
  source_vendor :: string
  source_instruction :: string
  address :: int
  metadata :: pydict
  comment :: "string option"

text \<open>
  \<^verbatim>\<open>@dataclass class UDMLProgram\<close>. The fields \<^verbatim>\<open>source_vendor\<close>, \<^verbatim>\<open>functions\<close> and
  \<^verbatim>\<open>metadata\<close> of the program are \<open>prog_source_vendor\<close>, \<open>prog_functions\<close> and
  \<open>prog_metadata\<close>: a record field is a constant of the theory, the instruction has fields
  of the first and the last name, and the second is a keyword.
\<close>

record UDMLProgram =
  program_name :: string
  prog_source_vendor :: string
  instructions :: "UDMLInstruction list"
  global_variables :: pydict
  prog_functions :: "pydict list"
  prog_metadata :: pydict

text \<open>
  The exceptions the code can raise: \<^verbatim>\<open>raise ValueError(f"Unsupported vendor: {vendor}")\<close>
  in \<^verbatim>\<open>translate\<close>, with its message, and the \<^verbatim>\<open>IndexError\<close> of \<^verbatim>\<open>operands[0]\<close> on an empty
  list in \<^verbatim>\<open>optimize\<close>.
\<close>

datatype error = ValueError string | IndexError

section \<open>The optimizer\<close>

text \<open>
  The instruction \<^verbatim>\<open>move_inst\<close> that \<^verbatim>\<open>optimize\<close> builds from the LOAD \<open>inst\<close> and the first
  operands \<open>a\<close> of the LOAD and \<open>b\<close> of the STORE.
\<close>

definition move_inst :: "UDMLInstruction \<Rightarrow> string \<Rightarrow> string \<Rightarrow> UDMLInstruction" where
  "move_inst inst a b =
     \<lparr> opcode = MOVE,
       operands = [a, b],
       source_vendor = source_vendor inst,
       source_instruction = ''OPTIMIZED'',
       address = address inst,
       metadata = [''optimized'' \<mapsto> PBool True],
       comment = Some ''Combined LOAD+STORE'' \<rparr>"

text \<open>
  The \<^verbatim>\<open>while i < len(program.instructions)\<close> loop of \<^verbatim>\<open>optimize\<close>, on the list \<open>insts\<close>, the
  index \<open>i\<close> and the list \<open>acc\<close> of \<^verbatim>\<open>optimized_instructions\<close>. \<^verbatim>\<open>inst.operands[0]\<close> and
  \<^verbatim>\<open>program.instructions[i+1].operands[0]\<close> raise \<^verbatim>\<open>IndexError\<close> on an empty operand list.
\<close>

function optimize_loop ::
  "UDMLInstruction list \<Rightarrow> nat \<Rightarrow> UDMLInstruction list \<Rightarrow> error + UDMLInstruction list" where
  "optimize_loop insts i acc =
     (if i < length insts then
        (let inst = insts ! i in
         if opcode inst = NOP then optimize_loop insts (i + 1) acc
         else if i < length insts - 1 \<and> opcode inst = LOAD
                 \<and> opcode (insts ! (i + 1)) = STORE then
           (case operands inst of
              [] \<Rightarrow> Inl IndexError
            | a # _ \<Rightarrow>
                (case operands (insts ! (i + 1)) of
                   [] \<Rightarrow> Inl IndexError
                 | b # _ \<Rightarrow> optimize_loop insts (i + 2) (acc @ [move_inst inst a b])))
         else optimize_loop insts (i + 1) (acc @ [inst]))
      else Inr acc)"
  by pat_completeness auto
termination
  by (relation "measure (\<lambda>(insts, i, acc). length insts - i)") auto

declare optimize_loop.simps [simp del]

text \<open>
  \<^verbatim>\<open>optimize\<close> as a function of the Program value: the Program after the call, with
  \<^verbatim>\<open>program.instructions = optimized_instructions\<close>, or the exception raised before that
  assignment.
\<close>

definition optimize :: "UDMLProgram \<Rightarrow> error + UDMLProgram" where
  "optimize program =
     (case optimize_loop (instructions program) 0 [] of
        Inl e \<Rightarrow> Inl e
      | Inr optimized_instructions \<Rightarrow>
          Inr (program \<lparr> instructions := optimized_instructions \<rparr>))"

text \<open>
  \<^verbatim>\<open>optimize\<close> on the objects themselves. A store maps each reference to the Program
  object it denotes; the call reads \<^verbatim>\<open>program.instructions\<close> through the reference \<open>r\<close>,
  assigns the new list to that field of the same object and returns the reference it was
  given. An exception leaves the loop before the assignment, so the store of the caller is
  the one before the call.
\<close>

type_synonym ref = nat

type_synonym store = "ref \<Rightarrow> UDMLProgram"

definition optimize_in_place :: "store \<Rightarrow> ref \<Rightarrow> error + (store \<times> ref)" where
  "optimize_in_place h r =
     (case optimize_loop (instructions (h r)) 0 [] of
        Inl e \<Rightarrow> Inl e
      | Inr optimized_instructions \<Rightarrow>
          Inr (h (r := (h r) \<lparr> instructions := optimized_instructions \<rparr>), r))"

section \<open>The vendor mapping tables and the translator\<close>

definition SIEMENS_MAPPING :: "(string \<times> UDMLOpcode) list" where
  "SIEMENS_MAPPING =
     [(''A'', OpAND), (''AN'', OpAND), (''O'', OpOR), (''ON'', OpOR), (''X'', OpXOR),
      (''='', STORE), (''L'', LOAD), (''T'', STORE), (''S'', OpSET), (''R'', RESET),
      (''+I'', ADD), (''-I'', SUB), (''*I'', MUL), (''/I'', OpDIV),
      (''==I'', EQ), (''<>I'', NE), (''>I'', GT), (''<I'', LT), (''CALL'', CALL)]"

definition MITSUBISHI_MAPPING :: "(string \<times> UDMLOpcode) list" where
  "MITSUBISHI_MAPPING =
     [(''LD'', LOAD), (''LDI'', LOAD), (''OUT'', STORE), (''AND'', OpAND), (''ANI'', OpAND),
      (''OR'', OpOR), (''ORI'', OpOR), (''SET'', OpSET), (''RST'', RESET), (''MOV'', MOVE),
      (''ADD'', ADD), (''SUB'', SUB), (''MUL'', MUL), (''DIV'', OpDIV)]"

definition ROCKWELL_MAPPING :: "(string \<times> UDMLOpcode) list" where
  "ROCKWELL_MAPPING =
     [(''XIC'', LOAD), (''XIO'', LOAD), (''OTE'', STORE), (''OTL'', OpSET), (''OTU'', RESET),
      (''TON'', TON), (''TOF'', TOF), (''CTU'', CTU), (''CTD'', CTD),
      (''ADD'', ADD), (''SUB'', SUB), (''MUL'', MUL), (''DIV'', OpDIV),
      (''EQU'', EQ), (''NEQ'', NE), (''GRT'', GT), (''LES'', LT), (''JSR'', CALL)]"

definition LS_MAPPING :: "(string \<times> UDMLOpcode) list" where
  "LS_MAPPING =
     [(''LD'', LOAD), (''OUT'', STORE), (''AND'', OpAND), (''OR'', OpOR), (''SET'', OpSET),
      (''RST'', RESET), (''MOV'', MOVE), (''ADD'', ADD), (''SUB'', SUB)]"

definition OMRON_MAPPING :: "(string \<times> UDMLOpcode) list" where
  "OMRON_MAPPING =
     [(''LD'', LOAD), (''OUT'', STORE), (''AND'', OpAND), (''OR'', OpOR), (''SET'', OpSET),
      (''RSET'', RESET), (''MOV'', MOVE), (''ADD'', ADD), (''SUB'', SUB)]"

text \<open>\<^verbatim>\<open>self.vendor_mappings\<close> of \<^verbatim>\<open>__init__\<close>: the dictionaries, keyed by the vendor.\<close>

definition vendor_mappings :: "string \<rightharpoonup> (string \<rightharpoonup> UDMLOpcode)" where
  "vendor_mappings =
     map_of [(''siemens'', map_of SIEMENS_MAPPING),
             (''mitsubishi'', map_of MITSUBISHI_MAPPING),
             (''rockwell'', map_of ROCKWELL_MAPPING),
             (''ls'', map_of LS_MAPPING),
             (''omron'', map_of OMRON_MAPPING)]"

text \<open>
  \<^verbatim>\<open>str.lower\<close> on the strings of this model, which are lists of 8-bit characters read
  as ASCII text: the letters \<^verbatim>\<open>A\<close> to \<^verbatim>\<open>Z\<close> (codes 65 to 90) go to \<^verbatim>\<open>a\<close> to \<^verbatim>\<open>z\<close>, every other
  character stays.
\<close>

definition char_lower :: "char \<Rightarrow> char" where
  "char_lower c =
     (let n = (of_char c :: nat) in if 65 \<le> n \<and> n \<le> 90 then char_of (n + 32) else c)"

definition lower :: "string \<Rightarrow> string" where
  "lower s = map char_lower s"

text \<open>
  The instruction object \<^verbatim>\<open>inst: Any\<close> handed to the translator, as far as the translator
  looks at it: the attributes \<^verbatim>\<open>mnemonic\<close>, \<^verbatim>\<open>operands\<close> and \<^verbatim>\<open>address\<close>, each \<open>None\<close> when
  \<^verbatim>\<open>hasattr\<close> is false; \<^verbatim>\<open>str(inst)\<close>; and \<^verbatim>\<open>getattr(inst, 'comment', None)\<close>, which is \<open>None\<close>
  for an absent attribute as for the value \<^verbatim>\<open>None\<close>. A \<^verbatim>\<open>PLCInstruction\<close> of
  \<^verbatim>\<open>parsers/siemens.py\<close> has all of them.
\<close>

record VendorInstruction =
  vi_mnemonic :: "string option"
  vi_str :: string
  vi_operands :: "string list option"
  vi_address :: "int option"
  vi_comment :: "string option"

text \<open>\<^verbatim>\<open>mnemonic = inst.mnemonic if hasattr(inst, 'mnemonic') else str(inst)\<close>.\<close>

definition mnemonic_of :: "VendorInstruction \<Rightarrow> string" where
  "mnemonic_of inst = (case vi_mnemonic inst of Some m \<Rightarrow> m | None \<Rightarrow> vi_str inst)"

text \<open>
  \<^verbatim>\<open>_translate_instruction\<close>. Both of its \<^verbatim>\<open>return\<close> statements return an instruction,
  never \<^verbatim>\<open>None\<close>.
\<close>

definition translate_instruction ::
  "string \<Rightarrow> (string \<rightharpoonup> UDMLOpcode) \<Rightarrow> VendorInstruction \<Rightarrow> UDMLInstruction" where
  "translate_instruction vendor mapping inst =
     (let mnemonic = mnemonic_of inst in
      case mapping mnemonic of
        None \<Rightarrow>
          \<lparr> opcode = NOP,
            operands = [],
            source_vendor = vendor,
            source_instruction = mnemonic,
            address = (case vi_address inst of Some a \<Rightarrow> a | None \<Rightarrow> 0),
            metadata = [''warning'' \<mapsto> PStr ''unmapped_instruction''],
            comment = Some (''Unknown: '' @ mnemonic) \<rparr>
      | Some opc \<Rightarrow>
          \<lparr> opcode = opc,
            operands = (case vi_operands inst of Some ops \<Rightarrow> ops | None \<Rightarrow> []),
            source_vendor = vendor,
            source_instruction = mnemonic,
            address = (case vi_address inst of Some a \<Rightarrow> a | None \<Rightarrow> 0),
            metadata =
              (if mnemonic \<in> set [''AN'', ''ANI'', ''XIO'']
               then [''negated'' \<mapsto> PBool True] else Map.empty),
            comment = vi_comment inst \<rparr>)"

text \<open>
  \<^verbatim>\<open>translate\<close>. The \<^verbatim>\<open>for\<close> loop appends the translation of every instruction, in order:
  \<^verbatim>\<open>if udml_inst\<close> is true of every instance of the dataclass, which defines neither
  \<^verbatim>\<open>__bool__\<close> nor \<^verbatim>\<open>__len__\<close>.
\<close>

definition translate :: "string \<Rightarrow> VendorInstruction list \<Rightarrow> error + UDMLProgram" where
  "translate vendor insts =
     (let vendor_lower = lower vendor in
      case vendor_mappings vendor_lower of
        None \<Rightarrow> Inl (ValueError (''Unsupported vendor: '' @ vendor))
      | Some mapping \<Rightarrow>
          Inr \<lparr> program_name = vendor @ ''_program'',
                prog_source_vendor = vendor,
                instructions = map (translate_instruction vendor_lower mapping) insts,
                global_variables = Map.empty,
                prog_functions = [],
                prog_metadata = [''translation_date'' \<mapsto> PStr ''2024-01-01'',
                                 ''translator_version'' \<mapsto> PStr ''1.0.0''] \<rparr>)"

section \<open>The complexity analyzer\<close>

text \<open>The loop of \<^verbatim>\<open>analyze_complexity\<close> that fills \<^verbatim>\<open>opcode_counts\<close>.\<close>

fun count_opcodes :: "UDMLInstruction list \<Rightarrow> (string \<rightharpoonup> int) \<Rightarrow> (string \<rightharpoonup> int)" where
  "count_opcodes [] opcode_counts = opcode_counts"
| "count_opcodes (inst # rest) opcode_counts =
     (let opc = opcode_value (opcode inst) in
      count_opcodes rest
        (opcode_counts (opc \<mapsto> (case opcode_counts opc of None \<Rightarrow> 0 | Some c \<Rightarrow> c) + 1)))"

text \<open>\<^verbatim>\<open>_calculate_cyclomatic_complexity\<close>: the \<^verbatim>\<open>sum\<close> of a 1 for each instruction kept by the filter.\<close>

definition calculate_cyclomatic_complexity :: "UDMLProgram \<Rightarrow> int" where
  "calculate_cyclomatic_complexity program =
     (let decision_points =
            sum_list (map (\<lambda>inst. 1)
              (filter (\<lambda>inst. opcode inst \<in> set [JZ, JNZ, CALL]) (instructions program)))
      in decision_points + 1)"

text \<open>The \<^verbatim>\<open>for\<close> loop of \<^verbatim>\<open>_calculate_nesting_depth\<close> on its two variables.\<close>

fun nesting_loop :: "UDMLInstruction list \<Rightarrow> int \<Rightarrow> int \<Rightarrow> int" where
  "nesting_loop [] max_depth current_depth = max_depth"
| "nesting_loop (inst # rest) max_depth current_depth =
     (if opcode inst = CALL then
        nesting_loop rest (max max_depth (current_depth + 1)) (current_depth + 1)
      else if opcode inst = RET then
        nesting_loop rest max_depth (max 0 (current_depth - 1))
      else nesting_loop rest max_depth current_depth)"

definition calculate_nesting_depth :: "UDMLProgram \<Rightarrow> int" where
  "calculate_nesting_depth program = nesting_loop (instructions program) 0 0"

text \<open>The dictionary \<^verbatim>\<open>analyze_complexity\<close> returns, with its four keys.\<close>

record ComplexityReport =
  total_instructions :: int
  opcode_distribution :: "string \<rightharpoonup> int"
  cyclomatic_complexity :: int
  max_nesting_depth :: int

definition analyze_complexity :: "UDMLProgram \<Rightarrow> ComplexityReport" where
  "analyze_complexity program =
     \<lparr> total_instructions = int (length (instructions program)),
       opcode_distribution = count_opcodes (instructions program) Map.empty,
       cyclomatic_complexity = calculate_cyclomatic_complexity program,
       max_nesting_depth = calculate_nesting_depth program \<rparr>"

section \<open>Notions of the specification and of the proofs\<close>

text \<open>
  The scan of \<open>optimize_loop\<close> by recursion on the instructions not yet read, for the
  proofs: \<open>optimize_loop_scan\<close> below shows that the loop at index \<open>i\<close> computes \<open>scan\<close> of
  the instructions from \<open>i\<close> on, after what it has emitted so far.
\<close>

fun emit :: "UDMLInstruction \<Rightarrow> error + UDMLInstruction list \<Rightarrow> error + UDMLInstruction list" where
  "emit x (Inl e) = Inl e"
| "emit x (Inr r) = Inr (x # r)"

fun prepend ::
  "UDMLInstruction list \<Rightarrow> error + UDMLInstruction list \<Rightarrow> error + UDMLInstruction list" where
  "prepend acc (Inl e) = Inl e"
| "prepend acc (Inr r) = Inr (acc @ r)"

fun scan :: "UDMLInstruction list \<Rightarrow> error + UDMLInstruction list" where
  "scan [] = Inr []"
| "scan [x] = (if opcode x = NOP then Inr [] else Inr [x])"
| "scan (x # y # ys) =
     (if opcode x = NOP then scan (y # ys)
      else if opcode x = LOAD \<and> opcode y = STORE then
        (case operands x of
           [] \<Rightarrow> Inl IndexError
         | a # _ \<Rightarrow>
             (case operands y of
                [] \<Rightarrow> Inl IndexError
              | b # _ \<Rightarrow> emit (move_inst x a b) (scan ys)))
      else emit x (scan (y # ys)))"

text \<open>A LOAD with a STORE right after it.\<close>

fun adjacent_load_store :: "UDMLInstruction list \<Rightarrow> bool" where
  "adjacent_load_store [] = False"
| "adjacent_load_store [x] = False"
| "adjacent_load_store (x # y # ys) =
     ((opcode x = LOAD \<and> opcode y = STORE) \<or> adjacent_load_store (y # ys))"

text \<open>The list starts with NOPs, none or more, and then a STORE.\<close>

fun nops_then_store :: "UDMLInstruction list \<Rightarrow> bool" where
  "nops_then_store [] = False"
| "nops_then_store (x # xs) =
     (if opcode x = NOP then nops_then_store xs else opcode x = STORE)"

text \<open>A LOAD, then one NOP or more, then a STORE, somewhere in the list.\<close>

fun load_nops_store :: "UDMLInstruction list \<Rightarrow> bool" where
  "load_nops_store [] = False"
| "load_nops_store [x] = False"
| "load_nops_store (x # y # ys) =
     ((opcode x = LOAD \<and> opcode y = NOP \<and> nops_then_store ys) \<or> load_nops_store (y # ys))"

text \<open>
  The nesting depth in the words of the specification: a counter that goes up on CALL and
  down, not below 0, on RET; the values it takes over one scan from the left, the start
  value first; and the maximum of these values.
\<close>

fun depth_step :: "int \<Rightarrow> UDMLOpcode \<Rightarrow> int" where
  "depth_step c opc = (if opc = CALL then c + 1 else if opc = RET then max 0 (c - 1) else c)"

fun counter_values :: "int \<Rightarrow> UDMLOpcode list \<Rightarrow> int list" where
  "counter_values c [] = [c]"
| "counter_values c (opc # rest) = c # counter_values (depth_step c opc) rest"

definition running_max_depth :: "UDMLOpcode list \<Rightarrow> int" where
  "running_max_depth opcodes = Max (set (counter_values 0 opcodes))"

text \<open>
  The negated mnemonics of a vendor in the words of the specification: AN of Siemens, ANI
  of Mitsubishi, XIO of Rockwell, none of the others.
\<close>

definition negated_mnemonics :: "string \<Rightarrow> string list" where
  "negated_mnemonics vendor =
     (if vendor = ''siemens'' then [''AN'']
      else if vendor = ''mitsubishi'' then [''ANI'']
      else if vendor = ''rockwell'' then [''XIO'']
      else [])"

section \<open>Example inputs\<close>

text \<open>
  Instructions as the translator produces them from a Siemens program: \<^verbatim>\<open>L MW10\<close>,
  \<^verbatim>\<open>T MW20\<close>, a mnemonic \<^verbatim>\<open>BLD\<close> that the table does not have, and an \<^verbatim>\<open>L\<close> whose operand
  list is empty; and the Program around a list of instructions.
\<close>

definition ex_load :: UDMLInstruction where
  "ex_load = \<lparr> opcode = LOAD, operands = [''MW10''], source_vendor = ''siemens'',
       source_instruction = ''L'', address = 4, metadata = Map.empty, comment = None \<rparr>"

definition ex_store :: UDMLInstruction where
  "ex_store = \<lparr> opcode = STORE, operands = [''MW20''], source_vendor = ''siemens'',
       source_instruction = ''T'', address = 6, metadata = Map.empty,
       comment = Some ''out'' \<rparr>"

definition ex_nop :: UDMLInstruction where
  "ex_nop = \<lparr> opcode = NOP, operands = [], source_vendor = ''siemens'',
       source_instruction = ''BLD'', address = 5,
       metadata = [''warning'' \<mapsto> PStr ''unmapped_instruction''],
       comment = Some ''Unknown: BLD'' \<rparr>"

definition ex_load_no_operand :: UDMLInstruction where
  "ex_load_no_operand = \<lparr> opcode = LOAD, operands = [], source_vendor = ''siemens'',
       source_instruction = ''L'', address = 0, metadata = Map.empty, comment = None \<rparr>"

definition ex_program :: "UDMLInstruction list \<Rightarrow> UDMLProgram" where
  "ex_program insts =
     \<lparr> program_name = ''siemens_program'', prog_source_vendor = ''siemens'',
       instructions = insts, global_variables = Map.empty, prog_functions = [],
       prog_metadata = [''translation_date'' \<mapsto> PStr ''2024-01-01'',
                        ''translator_version'' \<mapsto> PStr ''1.0.0''] \<rparr>"

text \<open>
  An instruction that has the given opcode and no operands, and a store in which every
  reference denotes a Program with the instructions \<^verbatim>\<open>[L MW10, BLD, T MW20]\<close>.
\<close>

definition ex_op :: "UDMLOpcode \<Rightarrow> UDMLInstruction" where
  "ex_op opc = \<lparr> opcode = opc, operands = [], source_vendor = ''siemens'',
       source_instruction = opcode_value opc, address = 0, metadata = Map.empty,
       comment = None \<rparr>"

definition ex_objects :: store where
  "ex_objects = (\<lambda>r. ex_program [ex_load, ex_nop, ex_store])"

text \<open>
  A vendor instruction with all the attributes of a \<^verbatim>\<open>PLCInstruction\<close>: mnemonic, operands
  and address given, no comment. Its \<^verbatim>\<open>str\<close> is the text of the dataclass, here cut short,
  and not the mnemonic.
\<close>

definition ex_vendor_inst :: "string \<Rightarrow> string list \<Rightarrow> int \<Rightarrow> VendorInstruction" where
  "ex_vendor_inst m ops a =
     \<lparr> vi_mnemonic = Some m, vi_str = ''PLCInstruction(mnemonic='' @ m @ '')'',
       vi_operands = Some ops, vi_address = Some a, vi_comment = None \<rparr>"

section \<open>The loop of the optimizer as a scan\<close>

lemma prepend_emit: "prepend acc (emit x res) = prepend (acc @ [x]) res"
  by (cases res) simp_all

lemma drop_two:
  "Suc i < length xs \<Longrightarrow> drop i xs = xs ! i # xs ! Suc i # drop (Suc (Suc i)) xs"
  by (simp add: Cons_nth_drop_Suc Suc_lessD)

lemma drop_last: "i < length xs \<Longrightarrow> \<not> Suc i < length xs \<Longrightarrow> drop i xs = [xs ! i]"
  by (metis Cons_nth_drop_Suc drop_all not_less)

lemma optimize_loop_scan: "optimize_loop insts i acc = prepend acc (scan (drop i insts))"
proof (induction insts i acc rule: optimize_loop.induct)
  case (1 insts i acc)
  show ?case
  proof (cases "i < length insts")
    case False
    then show ?thesis by (subst optimize_loop.simps) simp
  next
    case True
    note in_range = this
    show ?thesis
    proof (cases "Suc i < length insts")
      case False
      with in_range have d: "drop i insts = [insts ! i]" by (rule drop_last)
      from False in_range have nl: "\<not> i < length insts - 1" by arith
      from False have d2: "drop (Suc i) insts = []" by simp
      show ?thesis
        using "1.IH"(1)[OF in_range refl] "1.IH"(3)[OF in_range refl] in_range nl d d2
        by (subst optimize_loop.simps) (simp add: Let_def)
    next
      case True
      then have d: "drop i insts = insts ! i # insts ! Suc i # drop (Suc (Suc i)) insts"
        by (rule drop_two)
      from True have d1: "drop (Suc i) insts = insts ! Suc i # drop (Suc (Suc i)) insts"
        by (simp add: Cons_nth_drop_Suc)
      from True have lt: "i < length insts - 1" by arith
      show ?thesis
        using "1.IH"(1)[OF in_range refl] "1.IH"(2)[OF in_range refl]
          "1.IH"(3)[OF in_range refl] in_range lt d d1
        by (subst optimize_loop.simps) (auto simp: Let_def prepend_emit split: list.splits)
    qed
  qed
qed

lemma optimize_scan:
  "optimize program =
     (case scan (instructions program) of
        Inl e \<Rightarrow> Inl e
      | Inr r \<Rightarrow> Inr (program \<lparr> instructions := r \<rparr>))"
  by (cases "scan (instructions program)") (simp_all add: optimize_def optimize_loop_scan)

section \<open>The optimizer on its two rules\<close>

text \<open>
  Claim C6. On a Program whose instructions are a LOAD with first operand \<open>a\<close> and, right
  after it, a STORE with first operand \<open>b\<close>, \<open>optimize\<close> returns the Program with one
  instruction: a MOVE with the operands \<open>[a, b]\<close>, the address and the source vendor of
  the LOAD, the source instruction \<^verbatim>\<open>OPTIMIZED\<close>, the metadata \<^verbatim>\<open>{optimized: true}\<close> and the
  comment \<^verbatim>\<open>Combined LOAD+STORE\<close>. Both instructions are consumed.
\<close>

theorem optimize_fuses_load_store:
  assumes "instructions program = [ld, st]"
    and "opcode ld = LOAD" and "opcode st = STORE"
    and "operands ld = a # as" and "operands st = b # bs"
  shows "optimize program =
           Inr (program \<lparr> instructions :=
                  [\<lparr> opcode = MOVE, operands = [a, b], source_vendor = source_vendor ld,
                     source_instruction = ''OPTIMIZED'', address = address ld,
                     metadata = [''optimized'' \<mapsto> PBool True],
                     comment = Some ''Combined LOAD+STORE'' \<rparr>] \<rparr>)"
  using assms by (simp add: optimize_scan move_inst_def)

text \<open>The theorem of C6 at \<^verbatim>\<open>[L MW10, T MW20]\<close>.\<close>

theorem optimize_fuses_load_store_witness:
  "optimize (ex_program [ex_load, ex_store]) =
     Inr (ex_program
       [\<lparr> opcode = MOVE, operands = [''MW10'', ''MW20''], source_vendor = ''siemens'',
          source_instruction = ''OPTIMIZED'', address = 4,
          metadata = [''optimized'' \<mapsto> PBool True],
          comment = Some ''Combined LOAD+STORE'' \<rparr>])"
  using optimize_fuses_load_store [of "ex_program [ex_load, ex_store]" ex_load ex_store
      "''MW10''" "[]" "''MW20''" "[]"]
  by (simp add: ex_program_def ex_load_def ex_store_def)

text \<open>
  Claim C7. On a Program whose instructions are a LOAD, a NOP and a STORE, \<open>optimize\<close>
  returns the Program with the LOAD and the STORE: the NOP is dropped and the two are not
  fused, the STORE not being next to the LOAD in the list the loop reads.
\<close>

theorem optimize_load_nop_store:
  assumes "instructions program = [ld, np, st]"
    and "opcode ld = LOAD" and "opcode np = NOP" and "opcode st = STORE"
  shows "optimize program = Inr (program \<lparr> instructions := [ld, st] \<rparr>)"
  using assms by (simp add: optimize_scan)

text \<open>The theorem of C7 at \<^verbatim>\<open>[L MW10, BLD, T MW20]\<close>.\<close>

theorem optimize_load_nop_store_witness:
  "optimize (ex_program [ex_load, ex_nop, ex_store]) = Inr (ex_program [ex_load, ex_store])"
  using optimize_load_nop_store
    [of "ex_program [ex_load, ex_nop, ex_store]" ex_load ex_nop ex_store]
  by (simp add: ex_program_def ex_load_def ex_store_def ex_nop_def)

text \<open>
  Claim C2, at an input where it fails. The translator turns the Siemens instructions
  \<^verbatim>\<open>L\<close>, with an empty operand list, and \<^verbatim>\<open>T MW20\<close> into a Program, and \<open>optimize\<close> on that
  Program raises \<^verbatim>\<open>IndexError\<close>: the fusion reads \<^verbatim>\<open>inst.operands[0]\<close>.
\<close>

theorem optimize_raises_on_empty_operands:
  "translate ''siemens''
     [\<lparr> vi_mnemonic = Some ''L'', vi_str = ''L'', vi_operands = Some [], vi_address = Some 0,
        vi_comment = None \<rparr>,
      \<lparr> vi_mnemonic = Some ''T'', vi_str = ''T'', vi_operands = Some [''MW20''],
        vi_address = Some 6, vi_comment = Some ''out'' \<rparr>]
     = Inr (ex_program [ex_load_no_operand, ex_store])
   \<and> optimize (ex_program [ex_load_no_operand, ex_store]) = Inl IndexError"
  by (simp add: optimize_scan ex_program_def ex_load_no_operand_def ex_store_def
      translate_def translate_instruction_def mnemonic_of_def lower_def char_lower_def Let_def
      vendor_mappings_def SIEMENS_MAPPING_def)

section \<open>The complexity analyzer on a Program\<close>

lemma decision_points_count:
  "sum_list (map (\<lambda>inst. 1) (filter (\<lambda>inst. opcode inst \<in> set [JZ, JNZ, CALL]) insts)) =
     int (count_list (map opcode insts) JZ) + int (count_list (map opcode insts) JNZ)
       + int (count_list (map opcode insts) CALL)"
  by (induction insts) auto

text \<open>
  Claim C8. The cyclomatic complexity that \<open>analyze_complexity\<close> returns is 1 plus the
  number of instructions whose opcode is JZ, JNZ or CALL; on a Program with two CALL, one
  JZ and no JNZ it is 4.
\<close>

theorem cyclomatic_complexity_counts:
  "cyclomatic_complexity (analyze_complexity program) =
     1 + (int (count_list (map opcode (instructions program)) JZ)
          + int (count_list (map opcode (instructions program)) JNZ)
          + int (count_list (map opcode (instructions program)) CALL))
   \<and> (count_list (map opcode (instructions program)) CALL = 2
        \<and> count_list (map opcode (instructions program)) JZ = 1
        \<and> count_list (map opcode (instructions program)) JNZ = 0
      \<longrightarrow> cyclomatic_complexity (analyze_complexity program) = 4)"
  unfolding analyze_complexity_def calculate_cyclomatic_complexity_def Let_def
    decision_points_count
  by simp

text \<open>
  The theorem of C8 at a Program with the opcodes CALL, LOAD, JZ, CALL, RET.
\<close>

theorem cyclomatic_complexity_counts_witness:
  "count_list (map opcode (instructions (ex_program (map ex_op [CALL, LOAD, JZ, CALL, RET])))) CALL = 2
   \<and> count_list (map opcode (instructions (ex_program (map ex_op [CALL, LOAD, JZ, CALL, RET])))) JZ = 1
   \<and> count_list (map opcode (instructions (ex_program (map ex_op [CALL, LOAD, JZ, CALL, RET])))) JNZ = 0
   \<and> cyclomatic_complexity
        (analyze_complexity (ex_program (map ex_op [CALL, LOAD, JZ, CALL, RET]))) = 4"
  using cyclomatic_complexity_counts [of "ex_program (map ex_op [CALL, LOAD, JZ, CALL, RET])"]
  by (simp add: ex_program_def ex_op_def)

lemma counter_values_nonempty: "counter_values c ops \<noteq> []"
  by (cases ops) simp_all

lemma counter_values_start: "c \<in> set (counter_values c ops)"
  by (cases ops) simp_all

lemma Max_counter_values_Cons:
  "Max (set (counter_values c (opc # rest))) =
     max c (Max (set (counter_values (depth_step c opc) rest)))"
  using counter_values_nonempty [of "depth_step c opc" rest]
  by (simp del: depth_step.simps)

lemma Max_counter_values_ge: "c \<le> Max (set (counter_values c ops))"
  by (rule Max_ge) (simp_all add: counter_values_start)

lemma nesting_loop_running_max:
  "0 \<le> m \<Longrightarrow> c \<le> m \<Longrightarrow>
     nesting_loop insts m c = max m (Max (set (counter_values c (map opcode insts))))"
proof (induction insts arbitrary: m c)
  case Nil
  then show ?case by simp
next
  case (Cons inst rest)
  let ?ops = "map opcode rest"
  show ?case
  proof (cases "opcode inst = CALL")
    case True
    have ge: "c + 1 \<le> Max (set (counter_values (c + 1) ?ops))"
      by (rule Max_counter_values_ge)
    have "nesting_loop (inst # rest) m c = nesting_loop rest (max m (c + 1)) (c + 1)"
      using True by simp
    also have "\<dots> = max (max m (c + 1)) (Max (set (counter_values (c + 1) ?ops)))"
      using Cons.prems by (intro Cons.IH) simp_all
    also have "\<dots> = max m (max c (Max (set (counter_values (c + 1) ?ops))))"
      using ge Cons.prems by simp
    finally show ?thesis
      using True by (simp add: Max_counter_values_Cons del: counter_values.simps)
  next
    case nc: False
    show ?thesis
    proof (cases "opcode inst = RET")
      case True
      have "nesting_loop (inst # rest) m c = nesting_loop rest m (max 0 (c - 1))"
        using True nc by simp
      also have "\<dots> = max m (Max (set (counter_values (max 0 (c - 1)) ?ops)))"
        using Cons.prems by (intro Cons.IH) simp_all
      also have "\<dots> = max m (max c (Max (set (counter_values (max 0 (c - 1)) ?ops))))"
        using Cons.prems by simp
      finally show ?thesis
        using True nc by (simp add: Max_counter_values_Cons del: counter_values.simps)
    next
      case False
      have "nesting_loop (inst # rest) m c = nesting_loop rest m c"
        using False nc by simp
      also have "\<dots> = max m (Max (set (counter_values c ?ops)))"
        using Cons.prems by (intro Cons.IH)
      also have "\<dots> = max m (max c (Max (set (counter_values c ?ops))))"
        using Cons.prems by simp
      finally show ?thesis
        using False nc by (simp add: Max_counter_values_Cons del: counter_values.simps)
    qed
  qed
qed

text \<open>
  Claim C9. The nesting depth that \<open>analyze_complexity\<close> returns is the maximum of the
  values that the counter of the specification takes over one scan from the left, up on
  CALL, down and not below 0 on RET; on the opcodes CALL, CALL, RET, CALL, RET, RET it
  is 2.
\<close>

theorem max_nesting_depth_running_max:
  "max_nesting_depth (analyze_complexity program) =
     running_max_depth (map opcode (instructions program))
   \<and> (map opcode (instructions program) = [CALL, CALL, RET, CALL, RET, RET]
      \<longrightarrow> max_nesting_depth (analyze_complexity program) = 2)"
proof -
  have ge0: "0 \<le> Max (set (counter_values 0 (map opcode (instructions program))))"
    by (rule Max_counter_values_ge)
  have eq: "max_nesting_depth (analyze_complexity program) =
      running_max_depth (map opcode (instructions program))"
    using ge0 by (simp add: analyze_complexity_def calculate_nesting_depth_def
        running_max_depth_def nesting_loop_running_max)
  have "running_max_depth [CALL, CALL, RET, CALL, RET, RET] = 2"
    by (simp add: running_max_depth_def)
  with eq show ?thesis by simp
qed

text \<open>
  The theorem of C9 at a Program with the opcodes CALL, CALL, RET, CALL, RET, RET.
\<close>

theorem max_nesting_depth_running_max_witness:
  "map opcode (instructions (ex_program (map ex_op [CALL, CALL, RET, CALL, RET, RET])))
     = [CALL, CALL, RET, CALL, RET, RET]
   \<and> max_nesting_depth
        (analyze_complexity (ex_program (map ex_op [CALL, CALL, RET, CALL, RET, RET]))) = 2"
  using max_nesting_depth_running_max
    [of "ex_program (map ex_op [CALL, CALL, RET, CALL, RET, RET])"]
  by (simp add: ex_program_def ex_op_def)

section \<open>The optimizer and the Program object\<close>

text \<open>
  Claim C10. When \<open>optimize\<close> returns, it returns the reference it was given; the object
  behind it is the Program that \<open>optimize\<close> computes from the old one and differs from the
  old one in the field \<open>instructions\<close> only: name, source vendor, global variables,
  functions and metadata are the old ones. Every other object of the store is untouched.
\<close>

theorem optimize_in_place_frame:
  assumes "optimize_in_place h r = Inr (h', r')"
  shows "r' = r
       \<and> (\<forall>q. q \<noteq> r \<longrightarrow> h' q = h q)
       \<and> optimize (h r) = Inr (h' r)
       \<and> (\<exists>optimized_instructions. h' r = (h r) \<lparr> instructions := optimized_instructions \<rparr>)
       \<and> program_name (h' r) = program_name (h r)
       \<and> prog_source_vendor (h' r) = prog_source_vendor (h r)
       \<and> global_variables (h' r) = global_variables (h r)
       \<and> prog_functions (h' r) = prog_functions (h r)
       \<and> prog_metadata (h' r) = prog_metadata (h r)"
  using assms
  by (auto simp: optimize_in_place_def optimize_def split: sum.splits)

text \<open>The theorem of C10 at a store whose objects have the instructions of C7.\<close>

theorem optimize_in_place_frame_witness:
  "optimize_in_place ex_objects 0 = Inr (ex_objects (0 := ex_program [ex_load, ex_store]), 0)
   \<and> (ex_objects (0 := ex_program [ex_load, ex_store])) 1 = ex_objects 1
   \<and> program_name ((ex_objects (0 := ex_program [ex_load, ex_store])) 0)
       = program_name (ex_objects 0)
   \<and> prog_metadata ((ex_objects (0 := ex_program [ex_load, ex_store])) 0)
       = prog_metadata (ex_objects 0)"
proof -
  have run: "optimize_in_place ex_objects 0
      = Inr (ex_objects (0 := ex_program [ex_load, ex_store]), 0)"
    by (simp add: optimize_in_place_def optimize_loop_scan ex_objects_def ex_program_def
        ex_load_def ex_nop_def ex_store_def)
  from optimize_in_place_frame [OF run] run show ?thesis
    by simp
qed

section \<open>The translator\<close>

lemma vendor_mappings_None:
  "vendor_mappings v = None \<longleftrightarrow>
     v \<notin> set [''siemens'', ''mitsubishi'', ''rockwell'', ''ls'', ''omron'']"
  by (simp add: vendor_mappings_def)

text \<open>
  Claim C3. When the lower-cased vendor is none of siemens, mitsubishi, rockwell, ls and
  omron, \<open>translate\<close> raises the error of the unsupported vendor (in the code a
  \<^verbatim>\<open>ValueError\<close> with the message \<^verbatim>\<open>Unsupported vendor: \<close> and the vendor as given) and
  returns no Program; when it is one of them, \<open>translate\<close> returns a Program, whatever
  the instructions. So the unknown vendor is the only condition under which it raises.
\<close>

theorem translate_unsupported_vendor:
  "(lower vendor \<notin> set [''siemens'', ''mitsubishi'', ''rockwell'', ''ls'', ''omron'']
      \<longrightarrow> translate vendor insts = Inl (ValueError (''Unsupported vendor: '' @ vendor)))
   \<and> (lower vendor \<in> set [''siemens'', ''mitsubishi'', ''rockwell'', ''ls'', ''omron'']
      \<longrightarrow> (\<exists>program. translate vendor insts = Inr program))"
proof (cases "vendor_mappings (lower vendor)")
  case None
  then show ?thesis
    using vendor_mappings_None [of "lower vendor"] by (simp add: translate_def Let_def)
next
  case (Some mapping)
  then show ?thesis
    using vendor_mappings_None [of "lower vendor"] by (simp add: translate_def Let_def)
qed

lemma lower_Fanuc: "lower ''Fanuc'' = ''fanuc''"
  by code_simp

lemma lower_Siemens: "lower ''Siemens'' = ''siemens''"
  by code_simp

text \<open>
  The theorem of C3 at the vendors \<^verbatim>\<open>Fanuc\<close>, which is not registered, and \<^verbatim>\<open>Siemens\<close>, which is.
\<close>

theorem translate_unsupported_vendor_witness:
  "lower ''Fanuc'' \<notin> set [''siemens'', ''mitsubishi'', ''rockwell'', ''ls'', ''omron'']
   \<and> translate ''Fanuc'' [ex_vendor_inst ''LD'' [''X0''] 0]
       = Inl (ValueError ''Unsupported vendor: Fanuc'')
   \<and> lower ''Siemens'' \<in> set [''siemens'', ''mitsubishi'', ''rockwell'', ''ls'', ''omron'']
   \<and> (\<exists>program. translate ''Siemens'' [ex_vendor_inst ''A'' [''I0.0''] 0] = Inr program)"
  using translate_unsupported_vendor [of "''Fanuc''" "[ex_vendor_inst ''LD'' [''X0''] 0]"]
    translate_unsupported_vendor [of "''Siemens''" "[ex_vendor_inst ''A'' [''I0.0''] 0]"]
  by (simp add: lower_Fanuc lower_Siemens)

text \<open>
  Claim C4. For a registered vendor and an instruction, at any position \<open>i\<close> of the
  input, whose attribute \<^verbatim>\<open>mnemonic\<close> is a string \<open>m\<close> that the table of the vendor does not
  have, \<open>translate\<close> returns a Program with as many instructions as the input, and the
  one at position \<open>i\<close> has the opcode NOP, no operands, the metadata
  \<^verbatim>\<open>{warning: unmapped_instruction}\<close> and the comment \<^verbatim>\<open>Unknown: \<close> followed by \<open>m\<close>.
\<close>

theorem translate_unmapped_mnemonic:
  assumes "vendor_mappings (lower vendor) = Some mapping"
    and "i < length insts"
    and "vi_mnemonic (insts ! i) = Some m"
    and "mapping m = None"
  shows "\<exists>program. translate vendor insts = Inr program
           \<and> length (instructions program) = length insts
           \<and> instructions program ! i =
               \<lparr> opcode = NOP, operands = [], source_vendor = lower vendor,
                 source_instruction = m,
                 address = (case vi_address (insts ! i) of Some a \<Rightarrow> a | None \<Rightarrow> 0),
                 metadata = [''warning'' \<mapsto> PStr ''unmapped_instruction''],
                 comment = Some (''Unknown: '' @ m) \<rparr>"
  using assms by (simp add: translate_def translate_instruction_def mnemonic_of_def Let_def)

lemma siemens_table: "vendor_mappings ''siemens'' = Some (map_of SIEMENS_MAPPING)"
  by (simp add: vendor_mappings_def)

text \<open>
  The theorem of C4 at the Siemens instructions \<^verbatim>\<open>L MW10\<close> and \<^verbatim>\<open>BLD 130\<close>.
\<close>

theorem translate_unmapped_mnemonic_witness:
  "vendor_mappings (lower ''Siemens'') = Some (map_of SIEMENS_MAPPING)
   \<and> vi_mnemonic (ex_vendor_inst ''BLD'' [''130''] 5) = Some ''BLD''
   \<and> map_of SIEMENS_MAPPING ''BLD'' = None
   \<and> (\<exists>program.
         translate ''Siemens''
           [ex_vendor_inst ''L'' [''MW10''] 4, ex_vendor_inst ''BLD'' [''130''] 5] = Inr program
         \<and> length (instructions program) = 2
         \<and> instructions program ! 1 =
             \<lparr> opcode = NOP, operands = [], source_vendor = ''siemens'',
               source_instruction = ''BLD'', address = 5,
               metadata = [''warning'' \<mapsto> PStr ''unmapped_instruction''],
               comment = Some ''Unknown: BLD'' \<rparr>)"
proof -
  have tbl: "vendor_mappings (lower ''Siemens'') = Some (map_of SIEMENS_MAPPING)"
    by (simp add: lower_Siemens siemens_table)
  have attr: "vi_mnemonic (ex_vendor_inst ''BLD'' [''130''] 5) = Some ''BLD''"
    by (simp add: ex_vendor_inst_def)
  have unmapped: "map_of SIEMENS_MAPPING ''BLD'' = None"
    by (simp add: SIEMENS_MAPPING_def)
  have "vi_mnemonic
      ([ex_vendor_inst ''L'' [''MW10''] 4, ex_vendor_inst ''BLD'' [''130''] 5] ! 1)
      = Some ''BLD''"
    using attr by simp
  from translate_unmapped_mnemonic [OF tbl _ this unmapped] tbl attr unmapped show ?thesis
    by (simp add: lower_Siemens ex_vendor_inst_def numeral_2_eq_2)
qed

lemma negated_siemens:
  "map_of SIEMENS_MAPPING m = Some opc \<Longrightarrow>
     (m \<in> set [''AN'', ''ANI'', ''XIO'']) = (m \<in> set [''AN''])"
  by (auto simp: SIEMENS_MAPPING_def split: if_splits)

lemma negated_mitsubishi:
  "map_of MITSUBISHI_MAPPING m = Some opc \<Longrightarrow>
     (m \<in> set [''AN'', ''ANI'', ''XIO'']) = (m \<in> set [''ANI''])"
  by (auto simp: MITSUBISHI_MAPPING_def split: if_splits)

lemma negated_rockwell:
  "map_of ROCKWELL_MAPPING m = Some opc \<Longrightarrow>
     (m \<in> set [''AN'', ''ANI'', ''XIO'']) = (m \<in> set [''XIO''])"
  by (auto simp: ROCKWELL_MAPPING_def split: if_splits)

lemma negated_ls:
  "map_of LS_MAPPING m = Some opc \<Longrightarrow> (m \<in> set [''AN'', ''ANI'', ''XIO'']) = False"
  by (auto simp: LS_MAPPING_def split: if_splits)

lemma negated_omron:
  "map_of OMRON_MAPPING m = Some opc \<Longrightarrow> (m \<in> set [''AN'', ''ANI'', ''XIO'']) = False"
  by (auto simp: OMRON_MAPPING_def split: if_splits)

lemma vendor_mappings_cases:
  assumes "vendor_mappings v = Some mapping"
  shows "(v = ''siemens'' \<and> mapping = map_of SIEMENS_MAPPING)
       \<or> (v = ''mitsubishi'' \<and> mapping = map_of MITSUBISHI_MAPPING)
       \<or> (v = ''rockwell'' \<and> mapping = map_of ROCKWELL_MAPPING)
       \<or> (v = ''ls'' \<and> mapping = map_of LS_MAPPING)
       \<or> (v = ''omron'' \<and> mapping = map_of OMRON_MAPPING)"
  using assms by (auto simp: vendor_mappings_def split: if_splits)

lemma negated_check:
  assumes "vendor_mappings v = Some mapping" and "mapping m = Some opc"
  shows "(m \<in> set [''AN'', ''ANI'', ''XIO'']) = (m \<in> set (negated_mnemonics v))"
  using vendor_mappings_cases [OF assms(1)]
proof (elim disjE conjE)
  assume "v = ''siemens''" and "mapping = map_of SIEMENS_MAPPING"
  with assms(2) negated_siemens [of m opc] show ?thesis
    by (simp add: negated_mnemonics_def)
next
  assume "v = ''mitsubishi''" and "mapping = map_of MITSUBISHI_MAPPING"
  with assms(2) negated_mitsubishi [of m opc] show ?thesis
    by (simp add: negated_mnemonics_def)
next
  assume "v = ''rockwell''" and "mapping = map_of ROCKWELL_MAPPING"
  with assms(2) negated_rockwell [of m opc] show ?thesis
    by (simp add: negated_mnemonics_def)
next
  assume "v = ''ls''" and "mapping = map_of LS_MAPPING"
  with assms(2) negated_ls [of m opc] show ?thesis
    by (simp add: negated_mnemonics_def)
next
  assume "v = ''omron''" and "mapping = map_of OMRON_MAPPING"
  with assms(2) negated_omron [of m opc] show ?thesis
    by (simp add: negated_mnemonics_def)
qed

text \<open>
  Claim C5. For a registered vendor and an instruction whose attribute \<^verbatim>\<open>mnemonic\<close> is a
  string \<open>m\<close> that the table of the vendor maps to an opcode, \<open>translate\<close> of that single
  instruction returns a Program with exactly one instruction; it has that opcode, its
  metadata has \<^verbatim>\<open>negated = true\<close> exactly when \<open>m\<close> is a negated mnemonic of the vendor (AN
  of Siemens, ANI of Mitsubishi, XIO of Rockwell), and nothing else.
\<close>

theorem translate_mapped_mnemonic:
  assumes "vendor_mappings (lower vendor) = Some mapping"
    and "vi_mnemonic inst = Some m"
    and "mapping m = Some opc"
  shows "\<exists>program u. translate vendor [inst] = Inr program
           \<and> instructions program = [u]
           \<and> opcode u = opc
           \<and> (metadata u ''negated'' = Some (PBool True)
                \<longleftrightarrow> m \<in> set (negated_mnemonics (lower vendor)))
           \<and> metadata u =
               (if m \<in> set (negated_mnemonics (lower vendor))
                then [''negated'' \<mapsto> PBool True] else Map.empty)"
proof -
  from negated_check [OF assms(1) assms(3)]
  have "(m \<in> set [''AN'', ''ANI'', ''XIO''])
      = (m \<in> set (negated_mnemonics (lower vendor)))" .
  then show ?thesis
    using assms
    by (simp add: translate_def translate_instruction_def mnemonic_of_def Let_def
        del: set_simps)
qed

text \<open>
  The theorem of C5 at the Siemens instruction \<^verbatim>\<open>AN I0.1\<close>.
\<close>

theorem translate_mapped_mnemonic_witness:
  "vendor_mappings (lower ''Siemens'') = Some (map_of SIEMENS_MAPPING)
   \<and> vi_mnemonic (ex_vendor_inst ''AN'' [''I0.1''] 2) = Some ''AN''
   \<and> map_of SIEMENS_MAPPING ''AN'' = Some OpAND
   \<and> (\<exists>program u. translate ''Siemens'' [ex_vendor_inst ''AN'' [''I0.1''] 2] = Inr program
         \<and> instructions program = [u] \<and> opcode u = OpAND
         \<and> metadata u = [''negated'' \<mapsto> PBool True])"
proof -
  have tbl: "vendor_mappings (lower ''Siemens'') = Some (map_of SIEMENS_MAPPING)"
    by (simp add: lower_Siemens siemens_table)
  have attr: "vi_mnemonic (ex_vendor_inst ''AN'' [''I0.1''] 2) = Some ''AN''"
    by (simp add: ex_vendor_inst_def)
  have mapped: "map_of SIEMENS_MAPPING ''AN'' = Some OpAND"
    by (simp add: SIEMENS_MAPPING_def)
  have neg: "''AN'' \<in> set (negated_mnemonics (lower ''Siemens''))"
    by (simp add: lower_Siemens negated_mnemonics_def)
  from translate_mapped_mnemonic [OF tbl attr mapped] neg tbl attr mapped show ?thesis
    by auto
qed

section \<open>Running the optimizer twice\<close>

lemma emit_Inr: "emit x res = Inr r \<longleftrightarrow> (\<exists>r'. res = Inr r' \<and> r = x # r')"
  by (cases res) auto

lemma opcode_move_inst: "opcode (move_inst x a b) = MOVE"
  by (simp add: move_inst_def)

text \<open>What one step of the scan on a list of two or more instructions returns.\<close>

lemma scan_step_cases:
  assumes "scan (x # y # ys) = Inr r"
  obtains (nop) "opcode x = NOP" "scan (y # ys) = Inr r"
    | (fuse) a as b bs r' where "opcode x = LOAD" "opcode y = STORE"
        "operands x = a # as" "operands y = b # bs"
        "scan ys = Inr r'" "r = move_inst x a b # r'"
    | (copy) r' where "opcode x \<noteq> NOP" "\<not> (opcode x = LOAD \<and> opcode y = STORE)"
        "scan (y # ys) = Inr r'" "r = x # r'"
proof (cases "opcode x = NOP")
  case True
  with assms nop show ?thesis by simp
next
  case nn: False
  show ?thesis
  proof (cases "opcode x = LOAD \<and> opcode y = STORE")
    case True
    with nn assms obtain a as where a: "operands x = a # as"
      by (cases "operands x") auto
    with True nn assms obtain b bs where b: "operands y = b # bs"
      by (cases "operands y") auto
    from True nn assms a b obtain r' where "scan ys = Inr r'" "r = move_inst x a b # r'"
      by (auto simp: emit_Inr)
    with True a b fuse show ?thesis by blast
  next
    case False
    with nn assms obtain r' where "scan (y # ys) = Inr r'" "r = x # r'"
      by (auto simp: emit_Inr)
    with nn False copy show ?thesis by blast
  qed
qed


lemma scan_no_nop: "scan xs = Inr r \<Longrightarrow> list_all (\<lambda>x. opcode x \<noteq> NOP) r"
proof (induction "length xs" arbitrary: xs r rule: less_induct)
  case less
  show ?case
  proof (cases xs rule: scan.cases)
    case 1
    with less.prems show ?thesis by simp
  next
    case (2 x)
    with less.prems show ?thesis by (auto split: if_splits)
  next
    case (3 x y ys)
    from less.prems [unfolded 3] show ?thesis
    proof (cases rule: scan_step_cases)
      case nop
      with less.hyps [of "y # ys" r] 3 show ?thesis by simp
    next
      case (fuse a as b bs r')
      with less.hyps [of ys r'] 3 show ?thesis by (simp add: opcode_move_inst)
    next
      case (copy r')
      with less.hyps [of "y # ys" r'] 3 show ?thesis by simp
    qed
  qed
qed

lemma scan_length: "scan xs = Inr r \<Longrightarrow> length r \<le> length xs"
proof (induction "length xs" arbitrary: xs r rule: less_induct)
  case less
  show ?case
  proof (cases xs rule: scan.cases)
    case 1
    with less.prems show ?thesis by simp
  next
    case (2 x)
    with less.prems show ?thesis by (auto split: if_splits)
  next
    case (3 x y ys)
    from less.prems [unfolded 3] show ?thesis
    proof (cases rule: scan_step_cases)
      case nop
      with less.hyps [of "y # ys" r] 3 show ?thesis by simp
    next
      case (fuse a as b bs r')
      with less.hyps [of ys r'] 3 show ?thesis by simp
    next
      case (copy r')
      with less.hyps [of "y # ys" r'] 3 show ?thesis by simp
    qed
  qed
qed

lemma scan_head_store:
  "scan xs = Inr (z # r) \<Longrightarrow> opcode z = STORE \<Longrightarrow> nops_then_store xs"
proof (induction "length xs" arbitrary: xs rule: less_induct)
  case less
  show ?case
  proof (cases xs rule: scan.cases)
    case 1
    with less.prems show ?thesis by simp
  next
    case (2 x)
    with less.prems show ?thesis by (auto split: if_splits)
  next
    case (3 x y ys)
    from less.prems(1) [unfolded 3] show ?thesis
    proof (cases rule: scan_step_cases)
      case nop
      with less.hyps [of "y # ys"] less.prems(2) 3 show ?thesis by simp
    next
      case (fuse a as b bs r')
      with less.prems(2) show ?thesis by (simp add: opcode_move_inst)
    next
      case (copy r')
      with less.prems(2) 3 show ?thesis by simp
    qed
  qed
qed

lemma nops_then_store_scan:
  "nops_then_store xs \<Longrightarrow> scan xs = Inr r \<Longrightarrow> \<exists>z r'. r = z # r' \<and> opcode z = STORE"
proof (induction "length xs" arbitrary: xs rule: less_induct)
  case less
  show ?case
  proof (cases xs rule: scan.cases)
    case 1
    with less.prems show ?thesis by simp
  next
    case (2 x)
    with less.prems show ?thesis by (auto split: if_splits)
  next
    case (3 x y ys)
    from less.prems(2) [unfolded 3] show ?thesis
    proof (cases rule: scan_step_cases)
      case nop
      with less.hyps [of "y # ys"] less.prems(1) 3 show ?thesis by simp
    next
      case (fuse a as b bs r')
      with less.prems(1) 3 show ?thesis by simp
    next
      case (copy r')
      with less.prems(1) 3 show ?thesis by simp
    qed
  qed
qed


lemma load_nops_store_Cons:
  "load_nops_store (x # xs) =
     ((opcode x = LOAD \<and> (\<exists>y ys. xs = y # ys \<and> opcode y = NOP \<and> nops_then_store ys))
      \<or> load_nops_store xs)"
  by (cases xs) simp_all

lemma adjacent_load_store_Cons:
  "adjacent_load_store (x # xs) =
     ((opcode x = LOAD \<and> (\<exists>y ys. xs = y # ys \<and> opcode y = STORE))
      \<or> adjacent_load_store xs)"
  by (cases xs) simp_all

lemma scan_adjacent_iff:
  "scan xs = Inr r \<Longrightarrow> adjacent_load_store r \<longleftrightarrow> load_nops_store xs"
proof (induction "length xs" arbitrary: xs r rule: less_induct)
  case less
  show ?case
  proof (cases xs rule: scan.cases)
    case 1
    with less.prems show ?thesis by simp
  next
    case (2 x)
    with less.prems show ?thesis by (auto split: if_splits)
  next
    case (3 x y ys)
    from less.prems [unfolded 3] show ?thesis
    proof (cases rule: scan_step_cases)
      case nop
      from less.hyps [of "y # ys" r] nop 3
      have "adjacent_load_store r \<longleftrightarrow> load_nops_store (y # ys)" by simp
      with nop 3 show ?thesis by simp
    next
      case (fuse a as b bs r')
      from less.hyps [of ys r'] fuse 3
      have ih: "adjacent_load_store r' \<longleftrightarrow> load_nops_store ys" by simp
      have "adjacent_load_store r \<longleftrightarrow> adjacent_load_store r'"
        using fuse by (simp add: adjacent_load_store_Cons opcode_move_inst)
      moreover have "load_nops_store xs \<longleftrightarrow> load_nops_store ys"
        using fuse 3 by (simp add: load_nops_store_Cons)
      ultimately show ?thesis using ih by simp
    next
      case (copy r')
      from less.hyps [of "y # ys" r'] copy 3
      have ih: "adjacent_load_store r' \<longleftrightarrow> load_nops_store (y # ys)" by simp
      have head: "(\<exists>z zs. r' = z # zs \<and> opcode z = STORE) \<longleftrightarrow> nops_then_store (y # ys)"
      proof
        assume "\<exists>z zs. r' = z # zs \<and> opcode z = STORE"
        then obtain z zs where "r' = z # zs" and st: "opcode z = STORE" by blast
        with copy(3) have "scan (y # ys) = Inr (z # zs)" by simp
        then show "nops_then_store (y # ys)" using st by (rule scan_head_store)
      next
        assume "nops_then_store (y # ys)"
        from nops_then_store_scan [OF this copy(3)]
        show "\<exists>z zs. r' = z # zs \<and> opcode z = STORE" by blast
      qed
      have "adjacent_load_store r \<longleftrightarrow>
          (opcode x = LOAD \<and> nops_then_store (y # ys)) \<or> load_nops_store (y # ys)"
        using copy(4) ih head by (simp add: adjacent_load_store_Cons)
      moreover have "opcode x = LOAD \<Longrightarrow> nops_then_store (y # ys) \<longleftrightarrow>
          opcode y = NOP \<and> nops_then_store ys"
        using copy(2) by auto
      ultimately show ?thesis using 3 by auto
    qed
  qed
qed

lemma scan_fixpoint_adjacent: "scan xs = Inr xs \<Longrightarrow> \<not> adjacent_load_store xs"
proof (induction "length xs" arbitrary: xs rule: less_induct)
  case less
  show ?case
  proof (cases xs rule: scan.cases)
    case 1
    then show ?thesis by simp
  next
    case (2 x)
    then show ?thesis by simp
  next
    case (3 x y ys)
    from less.prems [unfolded 3] show ?thesis
    proof (cases rule: scan_step_cases)
      case nop
      from scan_length [OF nop(2)] show ?thesis by simp
    next
      case (fuse a as b bs r')
      from scan_length [OF fuse(5)] fuse(6) show ?thesis by auto
    next
      case (copy r')
      from copy(4) have r': "r' = y # ys" by simp
      with less.hyps [of "y # ys"] copy(3) 3 have "\<not> adjacent_load_store (y # ys)" by simp
      with copy(2) 3 show ?thesis by simp
    qed
  qed
qed

lemma scan_clean:
  "list_all (\<lambda>x. opcode x \<noteq> NOP) xs \<Longrightarrow> \<not> adjacent_load_store xs \<Longrightarrow> scan xs = Inr xs"
  by (induction xs rule: scan.induct) auto

lemma scan_twice:
  assumes "scan xs = Inr r"
  shows "scan r = Inr r \<longleftrightarrow> \<not> load_nops_store xs"
proof
  assume "scan r = Inr r"
  then have "\<not> adjacent_load_store r" by (rule scan_fixpoint_adjacent)
  with scan_adjacent_iff [OF assms] show "\<not> load_nops_store xs" by simp
next
  assume "\<not> load_nops_store xs"
  with scan_adjacent_iff [OF assms] have "\<not> adjacent_load_store r" by simp
  with scan_no_nop [OF assms] show "scan r = Inr r" by (rule scan_clean)
qed

text \<open>
  Claim C1, as the code has it. When \<open>optimize\<close> returns on a Program, a second run on
  the result returns that same result exactly when the instructions of the Program
  contain no LOAD that is followed by one NOP or more and then a STORE. The first run
  drops such NOPs and leaves the LOAD next to the STORE; the second run fuses the two, or
  raises when an operand list is empty.
\<close>

theorem optimize_idempotent_iff:
  assumes "optimize program = Inr program'"
  shows "optimize program' = Inr program' \<longleftrightarrow> \<not> load_nops_store (instructions program)"
proof -
  from assms obtain r where r: "scan (instructions program) = Inr r"
    and p': "program' = program \<lparr> instructions := r \<rparr>"
    by (auto simp: optimize_scan split: sum.splits)
  have "optimize program' = Inr program' \<longleftrightarrow> scan r = Inr r"
  proof (cases "scan r")
    case (Inl e)
    with p' show ?thesis by (simp add: optimize_scan)
  next
    case (Inr r2)
    have "program \<lparr> instructions := r2 \<rparr> = program \<lparr> instructions := r \<rparr> \<longleftrightarrow> r2 = r"
      by (metis UDMLProgram.select_convs(3) UDMLProgram.surjective UDMLProgram.update_convs(3))
    with Inr p' show ?thesis by (simp add: optimize_scan)
  qed
  with scan_twice [OF r] show ?thesis by simp
qed

text \<open>
  The theorem of C1 at \<^verbatim>\<open>[L MW10, T MW20, BLD]\<close>: the first run gives the one MOVE, and so does
  the second.
\<close>

theorem optimize_idempotent_iff_witness:
  "optimize (ex_program [ex_load, ex_store, ex_nop])
     = Inr (ex_program [move_inst ex_load ''MW10'' ''MW20''])
   \<and> \<not> load_nops_store (instructions (ex_program [ex_load, ex_store, ex_nop]))
   \<and> optimize (ex_program [move_inst ex_load ''MW10'' ''MW20''])
     = Inr (ex_program [move_inst ex_load ''MW10'' ''MW20''])"
proof -
  have run: "optimize (ex_program [ex_load, ex_store, ex_nop])
      = Inr (ex_program [move_inst ex_load ''MW10'' ''MW20''])"
    by (simp add: optimize_scan ex_program_def ex_load_def ex_store_def ex_nop_def)
  have clean: "\<not> load_nops_store (instructions (ex_program [ex_load, ex_store, ex_nop]))"
    by (simp add: ex_program_def ex_load_def ex_store_def ex_nop_def)
  from optimize_idempotent_iff [OF run] clean run show ?thesis
    by simp
qed

text \<open>
  Claim C1 as stated fails at \<^verbatim>\<open>[L MW10, BLD, T MW20]\<close>: the first run gives the LOAD and the
  STORE, the second run gives one MOVE.
\<close>

theorem optimize_not_idempotent:
  "optimize (ex_program [ex_load, ex_nop, ex_store]) = Inr (ex_program [ex_load, ex_store])
   \<and> optimize (ex_program [ex_load, ex_store])
       = Inr (ex_program [move_inst ex_load ''MW10'' ''MW20''])
   \<and> ex_program [move_inst ex_load ''MW10'' ''MW20''] \<noteq> ex_program [ex_load, ex_store]"
  by (simp add: optimize_scan ex_program_def ex_load_def ex_store_def ex_nop_def move_inst_def)

end
